theory Spec2Isabelle
  imports Main "HOL-Library.Finite_Map" "HOL-Library.Char_ord" "HOL-Library.List_Lexorder"
begin

section \<open>Data model\<close>

text \<open>
  The program is the Python class \<open>DictDiff\<close> of \<open>dictdiff/__init__.py\<close>.

  Keys are Python strings. A HOL \<open>string\<close> is a list of 8-bit characters; it is read as
  the UTF-8 encoding of the Python string, whose byte-wise lexicographic order
  (\<open>Char_ord\<close>, \<open>List_Lexorder\<close>) is the code-point order that \<open>sorted\<close> uses.

  Values are the scalars \<open>None\<close>, \<open>bool\<close>, \<open>int\<close> and \<open>str\<close>; floating-point values
  are left out. The source compares values with \<open>==\<close>, under which \<open>True == 1\<close> and
  \<open>False == 0\<close> (\<open>bool\<close> is a subclass of \<open>int\<close>), and values of otherwise different
  types are unequal.
\<close>

datatype pyval = PNone | PBool bool | PInt int | PStr string

fun py_eq :: "pyval \<Rightarrow> pyval \<Rightarrow> bool" where
  "py_eq PNone PNone = True"
| "py_eq (PBool a) (PBool b) = (a = b)"
| "py_eq (PInt i) (PInt j) = (i = j)"
| "py_eq (PBool a) (PInt j) = ((if a then 1 else 0) = j)"
| "py_eq (PInt i) (PBool b) = (i = (if b then 1 else 0))"
| "py_eq (PStr s) (PStr t) = (s = t)"
| "py_eq _ _ = False"

text \<open>
  The exceptions the source raises. \<open>KeyError\<close> carries its argument: the message of an
  explicit \<open>raise KeyError(...)\<close>, or the missing key when a subscript or \<open>del\<close> fails.
  \<open>EOFError\<close> is what \<open>input()\<close> raises when no line is left.
\<close>

datatype pyerror = TypeError string | KeyError string | EOFError

type_synonym dict = "(string, pyval) fmap"

text \<open>An instruction is the tuple \<open>(ACTION, KEY, VALUE)\<close>; the action is a string.\<close>

type_synonym instr = "string \<times> string \<times> pyval"

text \<open>The four status strings that \<open>_ShowDiff\<close> passes to \<open>_ShowRow\<close>.\<close>

datatype status = Deleted | Added | Unchanged | Different


record DictDiff =
  self_a :: dict
  self_b :: dict

section \<open>The constructor\<close>



section \<open>Reading the operator's input\<close>

text \<open>
  The lines the operator will type are a list; \<open>input()\<close> takes the first one and raises
  \<open>EOFError\<close> when none is left. What the program prints has no effect on what it
  returns and is not part of the model; so the title, the column width \<open>maxkeylen\<close>
  and the wrapped text lines of \<open>_ShowRow\<close> do not appear.
\<close>

definition input :: "string list \<Rightarrow> pyerror + (string \<times> string list)" where
  "input inp = (case inp of [] \<Rightarrow> Inl EOFError | w # ws \<Rightarrow> Inr (w, ws))"

text \<open>
  \<open>str.lower\<close>, on the ASCII letters. The source compares the lowered input only with the
  one-letter strings \<open>c\<close>, \<open>n\<close>, \<open>d\<close>, \<open>l\<close> and \<open>r\<close>, and no character outside ASCII
  lowers to one of these.
\<close>

definition lower_char :: "char \<Rightarrow> char" where
  "lower_char c =
    (let n = (of_char c :: nat) in if 65 \<le> n \<and> n \<le> 90 then char_of (n + 32) else c)"

definition lower :: "string \<Rightarrow> string" where
  "lower s = map lower_char s"

section \<open>Resolving one key: \<open>_ShowRow\<close>\<close>

text \<open>
  \<open>_ShowRow(k, maxkeylen, left, right, status, justprint, autoaccept)\<close>, for
  \<open>justprint = False\<close>, which is what every call in the source passes. The result is the
  instruction or \<open>None\<close>, with the input lines that remain. Each turn of the
  \<open>while True\<close> loop that does not return has read one line.
\<close>

function priv_ShowRow ::
  "string \<Rightarrow> pyval \<Rightarrow> pyval \<Rightarrow> status \<Rightarrow> bool \<Rightarrow> string list
     \<Rightarrow> pyerror + (instr option \<times> string list)" where
  "priv_ShowRow k orig_left orig_right status autoaccept inp =
    (if status = Unchanged then
       (case (if autoaccept then Inr (''c'', inp) else input inp) of
          Inl e \<Rightarrow> Inl e
        | Inr (which, inp1) \<Rightarrow>
            if lower which = ''c'' \<or> length which = 0 then
              Inr (Some (''k'', k, orig_left), inp1)
            else if lower which = ''n'' then
              (case input inp1 of
                 Inl e \<Rightarrow> Inl e
               | Inr (val, inp2) \<Rightarrow> Inr (Some (''e'', k, PStr val), inp2))
            else if lower which = ''d'' then
              Inr (Some (''d'', k, orig_left), inp1)
            else priv_ShowRow k orig_left orig_right status autoaccept inp1)
     else
       (case (if autoaccept then Inr (''r'', inp) else input inp) of
          Inl e \<Rightarrow> Inl e
        | Inr (which, inp1) \<Rightarrow>
            if lower which = ''l'' then
              (if status = Deleted then Inr (Some (''k'', k, orig_left), inp1)
               else if status = Added then Inr (None, inp1)
               else Inr (Some (''k'', k, orig_left), inp1))
            else if lower which = ''r'' then
              (if status = Deleted then Inr (Some (''d'', k, orig_right), inp1)
               else if status = Added then Inr (Some (''a'', k, orig_right), inp1)
               else Inr (Some (''e'', k, orig_right), inp1))
            else if lower which = ''n'' then
              (case input inp1 of
                 Inl e \<Rightarrow> Inl e
               | Inr (val, inp2) \<Rightarrow> Inr (Some (''e'', k, PStr val), inp2))
            else if lower which = ''d'' then
              Inr (Some (''d'', k, orig_left), inp1)
            else priv_ShowRow k orig_left orig_right status autoaccept inp1))"
  by pat_completeness auto
termination
  apply (relation "measure (\<lambda>(k, l, r, s, a, inp). length inp)")
  apply (auto simp: input_def lower_def lower_char_def split: if_splits list.splits)
  done

declare priv_ShowRow.simps [simp del]

section \<open>One pass over all keys: \<open>_ShowDiff\<close>\<close>

text \<open>A subscript \<open>d[k]\<close> raises \<open>KeyError(k)\<close> when the key is missing.\<close>

definition getitem :: "dict \<Rightarrow> string \<Rightarrow> pyerror + pyval" where
  "getitem d k = (case fmlookup d k of None \<Rightarrow> Inl (KeyError k) | Some v \<Rightarrow> Inr v)"

text \<open>
  The three \<open>for\<close> loops of \<open>_ShowDiff\<close>. Each carries the list \<open>ret\<close> and the remaining
  input; \<open>ret.append(zz)\<close> happens when \<open>zz != None\<close>.
\<close>

fun loop_a_has ::
  "dict \<Rightarrow> bool \<Rightarrow> string list \<Rightarrow> instr list \<Rightarrow> string list
     \<Rightarrow> pyerror + (instr list \<times> string list)" where
  "loop_a_has A autoaccept [] ret inp = Inr (ret, inp)"
| "loop_a_has A autoaccept (k # ks) ret inp =
    (case getitem A k of
       Inl e \<Rightarrow> Inl e
     | Inr left \<Rightarrow>
        (case priv_ShowRow k left (PStr []) Deleted autoaccept inp of
           Inl e \<Rightarrow> Inl e
         | Inr (zz, inp1) \<Rightarrow>
             loop_a_has A autoaccept ks
               (case zz of None \<Rightarrow> ret | Some z \<Rightarrow> ret @ [z]) inp1))"

fun loop_b_has ::
  "dict \<Rightarrow> bool \<Rightarrow> string list \<Rightarrow> instr list \<Rightarrow> string list
     \<Rightarrow> pyerror + (instr list \<times> string list)" where
  "loop_b_has B autoaccept [] ret inp = Inr (ret, inp)"
| "loop_b_has B autoaccept (k # ks) ret inp =
    (case getitem B k of
       Inl e \<Rightarrow> Inl e
     | Inr right \<Rightarrow>
        (case priv_ShowRow k (PStr []) right Added autoaccept inp of
           Inl e \<Rightarrow> Inl e
         | Inr (zz, inp1) \<Rightarrow>
             loop_b_has B autoaccept ks
               (case zz of None \<Rightarrow> ret | Some z \<Rightarrow> ret @ [z]) inp1))"

fun loop_common ::
  "dict \<Rightarrow> dict \<Rightarrow> bool \<Rightarrow> string list \<Rightarrow> instr list \<Rightarrow> string list
     \<Rightarrow> pyerror + (instr list \<times> string list)" where
  "loop_common A B autoaccept [] ret inp = Inr (ret, inp)"
| "loop_common A B autoaccept (k # ks) ret inp =
    (case getitem A k of
       Inl e \<Rightarrow> Inl e
     | Inr left \<Rightarrow>
        (case getitem B k of
           Inl e \<Rightarrow> Inl e
         | Inr right \<Rightarrow>
            (let status = (if py_eq left right then Unchanged else Different)
             in case priv_ShowRow k left right status autoaccept inp of
                  Inl e \<Rightarrow> Inl e
                | Inr (zz, inp1) \<Rightarrow>
                    loop_common A B autoaccept ks
                      (case zz of None \<Rightarrow> ret | Some z \<Rightarrow> ret @ [z]) inp1)))"

definition priv_ShowDiff ::
  "DictDiff \<Rightarrow> bool \<Rightarrow> string list \<Rightarrow> pyerror + (instr list \<times> string list)" where
  "priv_ShowDiff self autoaccept inp =
    (let a_keys = fmdom (self_a self);
         b_keys = fmdom (self_b self)
     in if fcard a_keys = 0 \<and> fcard b_keys = 0 then Inr ([], inp)
        else
          let common = sorted_list_of_fset (a_keys |\<inter>| b_keys);
              a_has = sorted_list_of_fset (a_keys |-| b_keys);
              b_has = sorted_list_of_fset (b_keys |-| a_keys)
          in case loop_a_has (self_a self) autoaccept a_has [] inp of
               Inl e \<Rightarrow> Inl e
             | Inr (ret1, inp1) \<Rightarrow>
                (case loop_b_has (self_b self) autoaccept b_has ret1 inp1 of
                   Inl e \<Rightarrow> Inl e
                 | Inr (ret2, inp2) \<Rightarrow>
                     loop_common (self_a self) (self_b self) autoaccept common ret2 inp2))"

section \<open>The session: \<open>ShowDiff\<close> and \<open>AutoDiff\<close>\<close>

text \<open>
  Under \<open>autoaccept\<close> no line is read, and the choice is fixed by the status. In any
  mode the input that remains is never longer than the input given, which is what the
  termination of \<open>ShowDiff\<close> rests on.
\<close>

lemma priv_ShowRow_auto:
  "priv_ShowRow k l r s True inp =
     Inr (Some (case s of Unchanged \<Rightarrow> (''k'', k, l) | Deleted \<Rightarrow> (''d'', k, r)
                 | Added \<Rightarrow> (''a'', k, r) | Different \<Rightarrow> (''e'', k, r)), inp)"
  by (subst priv_ShowRow.simps) (simp add: lower_def lower_char_def split: status.splits)

lemma priv_ShowRow_inp:
  "priv_ShowRow k l r s a inp = Inr (zz, inp') \<Longrightarrow> length inp' \<le> length inp"
proof (cases a)
  case True
  assume "priv_ShowRow k l r s a inp = Inr (zz, inp')"
  with True show ?thesis by (simp add: priv_ShowRow_auto)
next
  case False
  assume "priv_ShowRow k l r s a inp = Inr (zz, inp')"
  with False have "priv_ShowRow k l r s False inp = Inr (zz, inp')" by simp
  then show ?thesis
  proof (induction inp)
    case Nil
    then show ?case
      by (subst (asm) priv_ShowRow.simps) (auto simp: input_def split: if_splits)
  next
    case (Cons w ws)
    from Cons.prems Cons.IH show ?case
      apply (subst (asm) priv_ShowRow.simps)
      apply (auto simp: input_def le_SucI split: if_splits list.splits)
      done
  qed
qed

lemma loop_a_has_inp:
  "loop_a_has A a ks ret inp = Inr (ret', inp') \<Longrightarrow> length inp' \<le> length inp"
proof (induction ks arbitrary: ret inp)
  case Nil
  then show ?case by simp
next
  case (Cons k ks)
  from Cons.prems show ?case
    by (auto split: sum.splits dest!: Cons.IH priv_ShowRow_inp)
qed

lemma loop_b_has_inp:
  "loop_b_has B a ks ret inp = Inr (ret', inp') \<Longrightarrow> length inp' \<le> length inp"
proof (induction ks arbitrary: ret inp)
  case Nil
  then show ?case by simp
next
  case (Cons k ks)
  from Cons.prems show ?case
    by (auto split: sum.splits dest!: Cons.IH priv_ShowRow_inp)
qed

lemma loop_common_inp:
  "loop_common A B a ks ret inp = Inr (ret', inp') \<Longrightarrow> length inp' \<le> length inp"
proof (induction ks arbitrary: ret inp)
  case Nil
  then show ?case by simp
next
  case (Cons k ks)
  from Cons.prems show ?case
    by (auto simp: Let_def split: sum.splits dest!: Cons.IH priv_ShowRow_inp)
qed

lemma priv_ShowDiff_inp:
  "priv_ShowDiff self a inp = Inr (ret, inp') \<Longrightarrow> length inp' \<le> length inp"
  unfolding priv_ShowDiff_def Let_def
  by (auto split: if_splits sum.splits
           dest!: loop_a_has_inp loop_b_has_inp loop_common_inp)

text \<open>
  The summary that \<open>ShowDiff\<close> prints after a pass: nothing but text, except that an
  action outside \<open>a\<close>, \<open>d\<close>, \<open>k\<close>, \<open>e\<close> raises \<open>KeyError\<close>.
\<close>

fun review :: "instr list \<Rightarrow> pyerror option" where
  "review [] = None"
| "review ((l, k, v) # props) =
    (if l = ''a'' then review props
     else if l = ''d'' then review props
     else if l = ''k'' then review props
     else if l = ''e'' then review props
     else Some (KeyError (''Unrecognized prop value '' @ [CHR 0x27] @ l @ [CHR 0x27])))"

text \<open>
  The inner \<open>while True\<close> of \<open>ShowDiff\<close>: \<open>True\<close> stands for \<open>return ret\<close>, \<open>False\<close>
  for the \<open>break\<close> that repeats the pass.
\<close>

function save_or_redo :: "bool \<Rightarrow> string list \<Rightarrow> pyerror + (bool \<times> string list)" where
  "save_or_redo autoaccept inp =
    (case (if autoaccept then Inr (''s'', inp) else input inp) of
       Inl e \<Rightarrow> Inl e
     | Inr (which, inp1) \<Rightarrow>
         if which = ''s'' \<or> length which = 0 then Inr (True, inp1)
         else if which = ''r'' then Inr (False, inp1)
         else save_or_redo autoaccept inp1)"
  by pat_completeness auto
termination
  apply (relation "measure (\<lambda>(a, inp). length inp)")
  apply (auto simp: input_def split: if_splits list.splits)
  done

declare save_or_redo.simps [simp del]

lemma save_or_redo_inp:
  "save_or_redo a inp = Inr (False, inp') \<Longrightarrow> length inp' < length inp"
proof (induction inp)
  case Nil
  then show ?case
    by (subst (asm) save_or_redo.simps) (auto simp: input_def split: if_splits)
next
  case (Cons w ws)
  from Cons.prems Cons.IH show ?case
    apply (subst (asm) save_or_redo.simps)
    apply (auto simp: input_def less_SucI split: if_splits)
    done
qed

text \<open>
  The outer \<open>while True\<close>: a pass, the summary, then save or redo. A redo has read at
  least one line, so the loop ends on every finite input (with \<open>EOFError\<close> at the latest).
\<close>

function ShowDiff ::
  "DictDiff \<Rightarrow> bool \<Rightarrow> string list \<Rightarrow> pyerror + (instr list \<times> string list)" where
  "ShowDiff self autoaccept inp =
    (case priv_ShowDiff self autoaccept inp of
       Inl e \<Rightarrow> Inl e
     | Inr (ret, inp1) \<Rightarrow>
        (case review ret of
           Some e \<Rightarrow> Inl e
         | None \<Rightarrow>
            (case save_or_redo autoaccept inp1 of
               Inl e \<Rightarrow> Inl e
             | Inr (save, inp2) \<Rightarrow>
                 if save then Inr (ret, inp2) else ShowDiff self autoaccept inp2)))"
  by pat_completeness auto
termination
  apply (relation "measure (\<lambda>(self, a, inp). length inp)")
  apply (auto dest!: priv_ShowDiff_inp save_or_redo_inp)
  done

declare ShowDiff.simps [simp del]

definition AutoDiff :: "DictDiff \<Rightarrow> string list \<Rightarrow> pyerror + (instr list \<times> string list)" where
  "AutoDiff self inp = ShowDiff self True inp"

section \<open>Applying instructions: \<open>WasChanged\<close> and \<open>ApplyDiff\<close>\<close>

text \<open>Neither method reads \<open>self\<close>, so the model leaves that argument out.\<close>

definition WasChanged :: "instr list \<Rightarrow> bool" where
  "WasChanged props = list_ex (\<lambda>prop. fst prop \<noteq> ''k'') props"

text \<open>
  \<open>ApplyDiff\<close> builds a new dict object and updates it in place, while its caller still
  holds \<open>src\<close>. To tell the two objects apart the model has a store: the list of all dict
  objects, an object's address being its index. \<open>dict(src)\<close> allocates a new object with
  the contents of \<open>src\<close>; \<open>ret[k] = v\<close> and \<open>del ret[k]\<close> update the store at \<open>ret\<close>.
  An argument \<open>src\<close> is the address of an existing object: \<open>src < length h\<close>.
\<close>

type_synonym addr = nat
type_synonym heap = "dict list"

definition new_dict :: "dict \<Rightarrow> heap \<Rightarrow> addr \<times> heap" where
  "new_dict d h = (length h, h @ [d])"

text \<open>
  The loop \<open>for d in diff\<close>. It returns the exception that stopped it, if any, and the
  store as it is then: what was applied before the exception stays applied to \<open>ret\<close>.
  \<open>del ret[k]\<close> raises \<open>KeyError(k)\<close> when \<open>k\<close> is not in \<open>ret\<close>.
\<close>

fun apply_loop ::
  "addr \<Rightarrow> instr list \<Rightarrow> bool \<Rightarrow> bool \<Rightarrow> bool \<Rightarrow> bool \<Rightarrow> heap \<Rightarrow> pyerror option \<times> heap" where
  "apply_loop ret [] allowAdd allowDelete allowChange allowKeep h = (None, h)"
| "apply_loop ret ((l, k, v) # ds) allowAdd allowDelete allowChange allowKeep h =
    (if l = ''d'' then
       (if \<not> allowDelete then (Some (KeyError ''Deleting properties is not allowed''), h)
        else if k |\<notin>| fmdom (h ! ret) then (Some (KeyError k), h)
        else apply_loop ret ds allowAdd allowDelete allowChange allowKeep
               (h[ret := fmdrop k (h ! ret)]))
     else if l = ''a'' then
       (if \<not> allowAdd then (Some (KeyError ''Adding properties is not allowed''), h)
        else apply_loop ret ds allowAdd allowDelete allowChange allowKeep
               (h[ret := fmupd k v (h ! ret)]))
     else if l = ''k'' then
       (if \<not> allowKeep then (Some (KeyError ''Keeping properties is not allowed''), h)
        else apply_loop ret ds allowAdd allowDelete allowChange allowKeep h)
     else if l = ''e'' then
       (if \<not> allowChange then (Some (KeyError ''Changing properties is not allowed''), h)
        else apply_loop ret ds allowAdd allowDelete allowChange allowKeep
               (h[ret := fmupd k v (h ! ret)]))
     else (Some (KeyError (''Unrecognized diff command: '' @ l)), h))"

text \<open>
  The result is the exception, or what is returned: \<open>None\<close> (the bare \<open>return\<close>) or the
  address of the new dict.
\<close>

definition ApplyDiff ::
  "addr \<Rightarrow> instr list \<Rightarrow> bool \<Rightarrow> bool \<Rightarrow> bool \<Rightarrow> bool \<Rightarrow> heap
     \<Rightarrow> (pyerror + addr option) \<times> heap" where
  "ApplyDiff src diff allowAdd allowDelete allowChange allowKeep h =
    (case new_dict (h ! src) h of
       (ret, h1) \<Rightarrow>
         let nochange = list_all (\<lambda>d. fst d = ''k'') diff
         in if nochange then (Inr None, h1)
            else
              (case apply_loop ret diff allowAdd allowDelete allowChange allowKeep h1 of
                 (Some e, h2) \<Rightarrow> (Inl e, h2)
               | (None, h2) \<Rightarrow> (Inr (Some ret), h2)))"

section \<open>The example of the source's self-test\<close>

definition example_a :: dict where
  "example_a = fmap_of_list [(''Alice'', PInt 10), (''Bob'', PInt 20), (''Charlie'', PInt 30)]"

definition example_b :: dict where
  "example_b = fmap_of_list [(''Alice'', PInt 15), (''Bob'', PInt 20), (''David'', PInt 40)]"

section \<open>Properties of \<open>ApplyDiff\<close>\<close>

text \<open>
  The test \<open>nochange\<close> is the negation of \<open>WasChanged\<close>; the loop touches no object but
  \<open>ret\<close>; and a list of instructions is run part by part, an exception in the first part
  ending the run.
\<close>

lemma nochange_iff: "list_all (\<lambda>d. fst d = ''k'') diff \<longleftrightarrow> \<not> WasChanged diff"
  by (induction diff) (auto simp: WasChanged_def)

lemma apply_loop_frame:
  "apply_loop ret ds aA aD aC aK h = (e, h') \<Longrightarrow>
     length h' = length h \<and> (\<forall>a. a \<noteq> ret \<longrightarrow> h' ! a = h ! a)"
proof (induction ret ds aA aD aC aK h rule: apply_loop.induct)
  case (1 ret aA aD aC aK h)
  then show ?case by simp
next
  case (2 ret l k v ds aA aD aC aK h)
  from "2.prems" "2.IH" show ?case
    by (auto split: if_splits)
qed

lemma apply_loop_append:
  "apply_loop ret (ds1 @ ds2) aA aD aC aK h =
     (case apply_loop ret ds1 aA aD aC aK h of
        (Some e, h1) \<Rightarrow> (Some e, h1)
      | (None, h1) \<Rightarrow> apply_loop ret ds2 aA aD aC aK h1)"
proof (induction ret ds1 aA aD aC aK h rule: apply_loop.induct)
  case (1 ret aA aD aC aK h)
  then show ?case by simp
next
  case (2 ret l k v ds aA aD aC aK h)
  from "2.IH" show ?case
    by auto
qed

text \<open>
  Claim C6. When every instruction of the list is a Keep (action \<open>k\<close>), \<open>ApplyDiff\<close>
  returns \<open>None\<close>, the signal for "no changes", and not a dict: for every source, every
  such list and every setting of the four flags.
\<close>

theorem ApplyDiff_all_keep:
  assumes "\<forall>d \<in> set diff. fst d = ''k''"
  shows "fst (ApplyDiff src diff allowAdd allowDelete allowChange allowKeep h) = Inr None"
proof -
  from assms have "list_all (\<lambda>d. fst d = ''k'') diff"
    by (simp add: list_all_iff)
  then show ?thesis
    by (simp add: ApplyDiff_def new_dict_def)
qed

theorem ApplyDiff_all_keep_witness:
  "fst (ApplyDiff 0 [(''k'', ''Alice'', PInt 10), (''k'', ''Bob'', PInt 20)] True True True False
         [fmap_of_list [(''Alice'', PInt 10), (''Bob'', PInt 20)]]) = Inr None"
  using ApplyDiff_all_keep [of "[(''k'', ''Alice'', PInt 10), (''k'', ''Bob'', PInt 20)]" 0 True True True False
         "[fmap_of_list [(''Alice'', PInt 10), (''Bob'', PInt 20)]]"]
  by simp

text \<open>
  Claim C10. \<open>WasChanged\<close> is true exactly when some instruction has an action other than
  \<open>k\<close>; for every source and setting of the flags \<open>ApplyDiff\<close> returns \<open>None\<close> exactly
  when \<open>WasChanged\<close> is false; and on the empty list it returns \<open>None\<close> whatever the flags
  are, since no flag is looked at before that return.
\<close>

theorem WasChanged_ApplyDiff:
  "(WasChanged diff \<longleftrightarrow> (\<exists>d \<in> set diff. fst d \<noteq> ''k'')) \<and>
   (fst (ApplyDiff src diff allowAdd allowDelete allowChange allowKeep h) = Inr None
      \<longleftrightarrow> \<not> WasChanged diff) \<and>
   fst (ApplyDiff src [] allowAdd allowDelete allowChange allowKeep h) = Inr None"
proof (intro conjI)
  show "WasChanged diff \<longleftrightarrow> (\<exists>d \<in> set diff. fst d \<noteq> ''k'')"
    by (simp add: WasChanged_def list_ex_iff)
  show "fst (ApplyDiff src diff allowAdd allowDelete allowChange allowKeep h) = Inr None
      \<longleftrightarrow> \<not> WasChanged diff"
    by (auto simp: ApplyDiff_def new_dict_def nochange_iff split: prod.splits option.splits)
  show "fst (ApplyDiff src [] allowAdd allowDelete allowChange allowKeep h) = Inr None"
    by (simp add: ApplyDiff_def new_dict_def)
qed

text \<open>
  Claim C8. \<open>ApplyDiff\<close> does not change the object \<open>src\<close>: whether it returns the new
  dict, returns \<open>None\<close> or raises, the contents of \<open>src\<close> in the store afterwards are its
  contents before. More: every object that existed before the call is as it was; only
  the new object is written.
\<close>

theorem ApplyDiff_frame:
  assumes "src < length h"
  shows "snd (ApplyDiff src diff allowAdd allowDelete allowChange allowKeep h) ! src = h ! src \<and>
         take (length h) (snd (ApplyDiff src diff allowAdd allowDelete allowChange allowKeep h)) = h"
proof -
  let ?h1 = "h @ [h ! src]"
  obtain e h2 where run: "apply_loop (length h) diff allowAdd allowDelete allowChange allowKeep ?h1 = (e, h2)"
    by (cases "apply_loop (length h) diff allowAdd allowDelete allowChange allowKeep ?h1")
  from apply_loop_frame [OF run]
  have len: "length h2 = Suc (length h)" and same: "\<And>a. a < length h \<Longrightarrow> h2 ! a = h ! a"
    by (auto simp: nth_append)
  have "take (length h) h2 = h"
    by (rule nth_equalityI) (use len same in auto)
  moreover have "snd (ApplyDiff src diff allowAdd allowDelete allowChange allowKeep h) = ?h1
      \<or> snd (ApplyDiff src diff allowAdd allowDelete allowChange allowKeep h) = h2"
    using run by (auto simp: ApplyDiff_def new_dict_def Let_def split: option.splits)
  ultimately show ?thesis
    using assms same by (auto simp: nth_append)
qed

theorem ApplyDiff_frame_witness:
  "(0::nat) < length [example_a] \<and>
   snd (ApplyDiff 0 [(''d'', ''Charlie'', PInt 30), (''a'', ''David'', PInt 40),
                     (''d'', ''Zoe'', PNone)] True True True True [example_a]) ! 0 = example_a"
  using ApplyDiff_frame [of 0 "[example_a]"
          "[(''d'', ''Charlie'', PInt 30), (''a'', ''David'', PInt 40), (''d'', ''Zoe'', PNone)]"
          True True True True]
  by simp

text \<open>
  Claim C7. A Delete whose key is not in the working copy when it is reached raises
  \<open>KeyError\<close> with that key, whatever instructions follow it. And an exception ends the
  run: when a list \<open>pre\<close> raises, any longer list \<open>pre @ post\<close> raises the same exception
  and leaves the same store, so no instruction of \<open>post\<close> is run.
\<close>

theorem ApplyDiff_delete_absent_aborts:
  "(allowDelete \<and>
    apply_loop (length h) pre allowAdd allowDelete allowChange allowKeep (h @ [h ! src]) = (None, h1) \<and>
    k |\<notin>| fmdom (h1 ! length h)
      \<longrightarrow> ApplyDiff src (pre @ (''d'', k, v) # post) allowAdd allowDelete allowChange allowKeep h
            = (Inl (KeyError k), h1)) \<and>
   (ApplyDiff src pre allowAdd allowDelete allowChange allowKeep h = (Inl e, h2)
      \<longrightarrow> ApplyDiff src (pre @ post) allowAdd allowDelete allowChange allowKeep h = (Inl e, h2))"
proof (intro conjI impI)
  assume a: "allowDelete \<and>
    apply_loop (length h) pre allowAdd allowDelete allowChange allowKeep (h @ [h ! src]) = (None, h1) \<and>
    k |\<notin>| fmdom (h1 ! length h)"
  then show "ApplyDiff src (pre @ (''d'', k, v) # post) allowAdd allowDelete allowChange allowKeep h
            = (Inl (KeyError k), h1)"
    by (clarsimp simp: ApplyDiff_def new_dict_def apply_loop_append)
next
  assume a: "ApplyDiff src pre allowAdd allowDelete allowChange allowKeep h = (Inl e, h2)"
  then have nk: "\<not> list_all (\<lambda>d. fst d = ''k'') pre"
    by (auto simp: ApplyDiff_def new_dict_def)
  with a have "apply_loop (length h) pre allowAdd allowDelete allowChange allowKeep (h @ [h ! src])
      = (Some e, h2)"
    by (auto simp: ApplyDiff_def new_dict_def split: prod.splits option.splits)
  with nk show "ApplyDiff src (pre @ post) allowAdd allowDelete allowChange allowKeep h = (Inl e, h2)"
    by (simp add: ApplyDiff_def new_dict_def apply_loop_append)
qed

theorem ApplyDiff_delete_absent_aborts_witness:
  "ApplyDiff 0 ([(''d'', ''Charlie'', PInt 30)] @ (''d'', ''Charlie'', PInt 30) # [(''a'', ''David'', PInt 40)])
      True True True True [example_a]
     = (Inl (KeyError ''Charlie''), [example_a, fmdrop ''Charlie'' example_a]) \<and>
   ApplyDiff 0 ([(''x'', ''Alice'', PNone)] @ [(''a'', ''David'', PInt 40)]) True True True True [example_a]
     = (Inl (KeyError ''Unrecognized diff command: x''), [example_a, example_a])"
proof -
  have 1: "apply_loop (length [example_a]) [(''d'', ''Charlie'', PInt 30)] True True True True
             ([example_a] @ [[example_a] ! 0]) = (None, [example_a, fmdrop ''Charlie'' example_a])"
    by (simp add: example_a_def)
  have 2: "''Charlie'' |\<notin>| fmdom ([example_a, fmdrop ''Charlie'' example_a] ! length [example_a])"
    by simp
  have 3: "ApplyDiff 0 [(''x'', ''Alice'', PNone)] True True True True [example_a]
     = (Inl (KeyError ''Unrecognized diff command: x''), [example_a, example_a])"
    by (simp add: ApplyDiff_def new_dict_def)
  from ApplyDiff_delete_absent_aborts
         [of True "[example_a]" "[(''d'', ''Charlie'', PInt 30)]" True True True 0
             "[example_a, fmdrop ''Charlie'' example_a]" "''Charlie''" "PInt 30"
             "[(''a'', ''David'', PInt 40)]"] 1 2
  have a: "ApplyDiff 0 ([(''d'', ''Charlie'', PInt 30)] @ (''d'', ''Charlie'', PInt 30) # [(''a'', ''David'', PInt 40)])
      True True True True [example_a]
     = (Inl (KeyError ''Charlie''), [example_a, fmdrop ''Charlie'' example_a])"
    by blast
  from ApplyDiff_delete_absent_aborts
         [where pre = "[(''x'', ''Alice'', PNone)]" and post = "[(''a'', ''David'', PInt 40)]"
            and src = 0 and h = "[example_a]" and allowAdd = True and allowDelete = True
            and allowChange = True and allowKeep = True
            and e = "KeyError ''Unrecognized diff command: x''" and ?h2.0 = "[example_a, example_a]"] 3
  have b: "ApplyDiff 0 ([(''x'', ''Alice'', PNone)] @ [(''a'', ''David'', PInt 40)]) True True True True [example_a]
     = (Inl (KeyError ''Unrecognized diff command: x''), [example_a, example_a])"
    by blast
  from a b show ?thesis by (rule conjI)
qed

subsection \<open>The permission flags\<close>

text \<open>
  For the statements below: the message of the exception that the loop raises on an
  instruction with action \<open>l\<close> whose flag is false, and \<open>None\<close> when the flags let the
  instruction run.
\<close>

definition denied :: "string \<Rightarrow> bool \<Rightarrow> bool \<Rightarrow> bool \<Rightarrow> bool \<Rightarrow> string option" where
  "denied l allowAdd allowDelete allowChange allowKeep =
    (if l = ''d'' \<and> \<not> allowDelete then Some ''Deleting properties is not allowed''
     else if l = ''a'' \<and> \<not> allowAdd then Some ''Adding properties is not allowed''
     else if l = ''k'' \<and> \<not> allowKeep then Some ''Keeping properties is not allowed''
     else if l = ''e'' \<and> \<not> allowChange then Some ''Changing properties is not allowed''
     else None)"

lemma apply_loop_denied:
  "denied l aA aD aC aK = Some msg \<Longrightarrow> (l, k, v) \<in> set ds \<Longrightarrow>
     fst (apply_loop ret ds aA aD aC aK h) \<noteq> None"
proof (induction ret ds aA aD aC aK h rule: apply_loop.induct)
  case (1 ret aA aD aC aK h)
  then show ?case by simp
next
  case (2 ret l' k' v' ds aA aD aC aK h)
  from "2.prems" "2.IH" show ?case
    by (auto simp: denied_def split: if_splits)
qed

lemma apply_loop_denied_here:
  "denied l aA aD aC aK = Some msg \<Longrightarrow>
     apply_loop ret ((l, k, v) # ds) aA aD aC aK h = (Some (KeyError msg), h)"
  by (auto simp: denied_def split: if_splits)

lemma apply_loop_error_is_delete:
  "apply_loop ret ds True True True True h = (Some e, h') \<Longrightarrow>
   \<forall>d \<in> set ds. fst d \<in> {''k'', ''a'', ''d'', ''e''} \<Longrightarrow>
   \<exists>pre k v post. ds = pre @ (''d'', k, v) # post \<and>
      apply_loop ret pre True True True True h = (None, h') \<and>
      k |\<notin>| fmdom (h' ! ret) \<and> e = KeyError k"
proof (induction ds arbitrary: h)
  case Nil
  then show ?case by simp
next
  case (Cons d ds)
  obtain l k v where d: "d = (l, k, v)" by (cases d)
  show ?case
  proof (cases "l = ''d'' \<and> k |\<notin>| fmdom (h ! ret)")
    case True
    with Cons.prems d have "e = KeyError k" "h' = h" by auto
    with True d have "d # ds = [] @ (''d'', k, v) # ds \<and>
        apply_loop ret [] True True True True h = (None, h') \<and>
        k |\<notin>| fmdom (h' ! ret) \<and> e = KeyError k"
      by simp
    then show ?thesis by blast
  next
    case False
    define h2 where "h2 = (if l = ''d'' then h[ret := fmdrop k (h ! ret)]
                           else if l = ''k'' then h else h[ret := fmupd k v (h ! ret)])"
    from Cons.prems d False
    have step: "apply_loop ret [d] True True True True h = (None, h2)"
      and rest: "apply_loop ret ds True True True True h2 = (Some e, h')"
      by (auto simp: h2_def split: if_splits)
    from Cons.IH [OF rest] Cons.prems(2)
    obtain pre k' v' post where ds: "ds = pre @ (''d'', k', v') # post"
      and run: "apply_loop ret pre True True True True h2 = (None, h')"
      and absent: "k' |\<notin>| fmdom (h' ! ret)" and e: "e = KeyError k'"
      by auto
    have "apply_loop ret (d # pre) True True True True h = (None, h')"
      using apply_loop_append [of ret "[d]" pre True True True True h] step run by simp
    with ds absent e have "d # ds = (d # pre) @ (''d'', k', v') # post \<and>
        apply_loop ret (d # pre) True True True True h = (None, h') \<and>
        k' |\<notin>| fmdom (h' ! ret) \<and> e = KeyError k'"
      by simp
    then show ?thesis by blast
  qed
qed

text \<open>
  Claim C4 does not hold as stated. A list of Keep instructions only returns \<open>None\<close>
  with \<open>allowKeep\<close> false, since no flag is read before that return; with all flags true
  a Delete of a key that is not there raises; and with \<open>allowAdd\<close> false an Add that
  stands behind such a Delete is never reached, so the exception is the missing key's.
\<close>

theorem ApplyDiff_permission_counterexample:
  "fst (ApplyDiff 0 [(''k'', ''Alice'', PInt 10)] True True True False [example_a]) = Inr None \<and>
   fst (ApplyDiff 0 [(''d'', ''David'', PInt 40)] True True True True [example_a])
     = Inl (KeyError ''David'') \<and>
   fst (ApplyDiff 0 [(''d'', ''David'', PInt 40), (''a'', ''Eve'', PInt 1)] False True True True
          [example_a]) = Inl (KeyError ''David'')"
  by (simp add: ApplyDiff_def new_dict_def example_a_def)

text \<open>
  Claim C4, amended. If the list has an instruction whose flag is false, and some
  instruction that is not a Keep, then \<open>ApplyDiff\<close> raises: it returns neither a dict nor
  \<open>None\<close>. The exception is the permission message of that instruction when the
  instructions before it have run without an exception. With all four flags true and
  only the actions \<open>k\<close>, \<open>a\<close>, \<open>d\<close>, \<open>e\<close>, the only exception is that of a Delete whose
  key is not in the working copy when it is reached.
\<close>

theorem ApplyDiff_permissions:
  "(denied l allowAdd allowDelete allowChange allowKeep = Some msg \<and> (l, k, v) \<in> set diff \<and>
    WasChanged diff
      \<longrightarrow> isl (fst (ApplyDiff src diff allowAdd allowDelete allowChange allowKeep h))) \<and>
   (denied l allowAdd allowDelete allowChange allowKeep = Some msg \<and>
    WasChanged (pre @ (l, k, v) # post) \<and>
    apply_loop (length h) pre allowAdd allowDelete allowChange allowKeep (h @ [h ! src]) = (None, h1)
      \<longrightarrow> ApplyDiff src (pre @ (l, k, v) # post) allowAdd allowDelete allowChange allowKeep h
            = (Inl (KeyError msg), h1)) \<and>
   ((\<forall>d \<in> set diff. fst d \<in> {''k'', ''a'', ''d'', ''e''}) \<and>
    ApplyDiff src diff True True True True h = (Inl e, h2)
      \<longrightarrow> (\<exists>pre k v post. diff = pre @ (''d'', k, v) # post \<and>
            apply_loop (length h) pre True True True True (h @ [h ! src]) = (None, h2) \<and>
            k |\<notin>| fmdom (h2 ! length h) \<and> e = KeyError k))"
proof (intro conjI impI)
  assume a: "denied l allowAdd allowDelete allowChange allowKeep = Some msg \<and> (l, k, v) \<in> set diff \<and>
    WasChanged diff"
  then have "fst (apply_loop (length h) diff allowAdd allowDelete allowChange allowKeep (h @ [h ! src])) \<noteq> None"
    using apply_loop_denied [of l allowAdd allowDelete allowChange allowKeep msg k v diff] by blast
  with a show "isl (fst (ApplyDiff src diff allowAdd allowDelete allowChange allowKeep h))"
    by (auto simp: ApplyDiff_def new_dict_def nochange_iff split: prod.splits option.splits)
next
  assume a: "denied l allowAdd allowDelete allowChange allowKeep = Some msg \<and>
    WasChanged (pre @ (l, k, v) # post) \<and>
    apply_loop (length h) pre allowAdd allowDelete allowChange allowKeep (h @ [h ! src]) = (None, h1)"
  then have "apply_loop (length h) (pre @ (l, k, v) # post) allowAdd allowDelete allowChange allowKeep
       (h @ [h ! src]) = (Some (KeyError msg), h1)"
    by (simp add: apply_loop_append apply_loop_denied_here del: apply_loop.simps)
  with a show "ApplyDiff src (pre @ (l, k, v) # post) allowAdd allowDelete allowChange allowKeep h
            = (Inl (KeyError msg), h1)"
    by (simp add: ApplyDiff_def new_dict_def nochange_iff del: apply_loop.simps)
next
  assume a: "(\<forall>d \<in> set diff. fst d \<in> {''k'', ''a'', ''d'', ''e''}) \<and>
    ApplyDiff src diff True True True True h = (Inl e, h2)"
  then have "apply_loop (length h) diff True True True True (h @ [h ! src]) = (Some e, h2)"
    by (auto simp: ApplyDiff_def new_dict_def split: if_splits prod.splits option.splits)
  with a show "\<exists>pre k v post. diff = pre @ (''d'', k, v) # post \<and>
            apply_loop (length h) pre True True True True (h @ [h ! src]) = (None, h2) \<and>
            k |\<notin>| fmdom (h2 ! length h) \<and> e = KeyError k"
    by (intro apply_loop_error_is_delete) auto
qed


theorem ApplyDiff_permissions_witness:
  "isl (fst (ApplyDiff 0 [(''d'', ''Charlie'', PStr []), (''a'', ''David'', PInt 40),
                          (''e'', ''Alice'', PInt 15), (''k'', ''Bob'', PInt 20)]
               True True True False [example_a])) \<and>
   ApplyDiff 0 ([(''d'', ''Charlie'', PStr []), (''a'', ''David'', PInt 40)] @
                (''e'', ''Alice'', PInt 15) # [(''k'', ''Bob'', PInt 20)])
       True True False True [example_a]
     = (Inl (KeyError ''Changing properties is not allowed''),
        [example_a, fmupd ''David'' (PInt 40) (fmdrop ''Charlie'' example_a)]) \<and>
   (\<exists>pre k v post. [(''a'', ''David'', PInt 40), (''d'', ''Zoe'', PNone)] = pre @ (''d'', k, v) # post \<and>
      apply_loop (length [example_a]) pre True True True True ([example_a] @ [[example_a] ! 0])
        = (None, [example_a, fmupd ''David'' (PInt 40) example_a]) \<and>
      k |\<notin>| fmdom ([example_a, fmupd ''David'' (PInt 40) example_a] ! length [example_a]) \<and>
      KeyError ''Zoe'' = KeyError k)"
proof (intro conjI)
  have den: "denied ''k'' True True True False = Some ''Keeping properties is not allowed''"
    by (simp add: denied_def)
  have mem: "(''k'', ''Bob'', PInt 20) \<in> set [(''d'', ''Charlie'', PStr []), (''a'', ''David'', PInt 40),
                          (''e'', ''Alice'', PInt 15), (''k'', ''Bob'', PInt 20)]"
    by simp
  have ch: "WasChanged [(''d'', ''Charlie'', PStr []), (''a'', ''David'', PInt 40),
                          (''e'', ''Alice'', PInt 15), (''k'', ''Bob'', PInt 20)]"
    by (simp add: WasChanged_def)
  from ApplyDiff_permissions [of "''k''" True True True False "''Keeping properties is not allowed''"
         "''Bob''" "PInt 20" "[(''d'', ''Charlie'', PStr []), (''a'', ''David'', PInt 40),
                          (''e'', ''Alice'', PInt 15), (''k'', ''Bob'', PInt 20)]" 0 "[example_a]"]
       den mem ch
  show "isl (fst (ApplyDiff 0 [(''d'', ''Charlie'', PStr []), (''a'', ''David'', PInt 40),
                          (''e'', ''Alice'', PInt 15), (''k'', ''Bob'', PInt 20)]
               True True True False [example_a]))"
    by blast
next
  have den: "denied ''e'' True True False True = Some ''Changing properties is not allowed''"
    by (simp add: denied_def)
  have ch: "WasChanged ([(''d'', ''Charlie'', PStr []), (''a'', ''David'', PInt 40)] @
                (''e'', ''Alice'', PInt 15) # [(''k'', ''Bob'', PInt 20)])"
    by (simp add: WasChanged_def)
  have run: "apply_loop (length [example_a]) [(''d'', ''Charlie'', PStr []), (''a'', ''David'', PInt 40)]
               True True False True ([example_a] @ [[example_a] ! 0])
             = (None, [example_a, fmupd ''David'' (PInt 40) (fmdrop ''Charlie'' example_a)])"
    by (simp add: example_a_def)
  from ApplyDiff_permissions [where l = "''e''" and allowAdd = True and allowDelete = True
         and allowChange = False and allowKeep = True and msg = "''Changing properties is not allowed''"
         and pre = "[(''d'', ''Charlie'', PStr []), (''a'', ''David'', PInt 40)]"
         and k = "''Alice''" and v = "PInt 15" and post = "[(''k'', ''Bob'', PInt 20)]"
         and h = "[example_a]" and src = 0
         and ?h1.0 = "[example_a, fmupd ''David'' (PInt 40) (fmdrop ''Charlie'' example_a)]"]
       den ch run
  show "ApplyDiff 0 ([(''d'', ''Charlie'', PStr []), (''a'', ''David'', PInt 40)] @
                (''e'', ''Alice'', PInt 15) # [(''k'', ''Bob'', PInt 20)])
       True True False True [example_a]
     = (Inl (KeyError ''Changing properties is not allowed''),
        [example_a, fmupd ''David'' (PInt 40) (fmdrop ''Charlie'' example_a)])"
    by blast
next
  have known: "\<forall>d \<in> set [(''a'', ''David'', PInt 40), (''d'', ''Zoe'', PNone)].
                 fst d \<in> {''k'', ''a'', ''d'', ''e''}"
    by simp
  have run: "ApplyDiff 0 [(''a'', ''David'', PInt 40), (''d'', ''Zoe'', PNone)] True True True True
               [example_a]
             = (Inl (KeyError ''Zoe''), [example_a, fmupd ''David'' (PInt 40) example_a])"
    by (simp add: ApplyDiff_def new_dict_def example_a_def)
  from ApplyDiff_permissions [where diff = "[(''a'', ''David'', PInt 40), (''d'', ''Zoe'', PNone)]"
         and src = 0 and h = "[example_a]" and e = "KeyError ''Zoe''"
         and ?h2.0 = "[example_a, fmupd ''David'' (PInt 40) example_a]"]
       known run
  show "\<exists>pre k v post. [(''a'', ''David'', PInt 40), (''d'', ''Zoe'', PNone)] = pre @ (''d'', k, v) # post \<and>
      apply_loop (length [example_a]) pre True True True True ([example_a] @ [[example_a] ! 0])
        = (None, [example_a, fmupd ''David'' (PInt 40) example_a]) \<and>
      k |\<notin>| fmdom ([example_a, fmupd ''David'' (PInt 40) example_a] ! length [example_a]) \<and>
      KeyError ''Zoe'' = KeyError k"
    by blast
qed

section \<open>Properties of the constructor\<close>


section \<open>Properties of the diff pass\<close>

subsection \<open>The pass under \<open>autoaccept\<close>\<close>

text \<open>
  With \<open>autoaccept\<close> every key gives its instruction at once, no subscript fails, the
  summary knows every action and the pass is saved: \<open>AutoDiff\<close> returns the list below and
  leaves the input as it was.
\<close>

lemma getitem_present: "k |\<in>| fmdom d \<Longrightarrow> getitem d k = Inr (the (fmlookup d k))"
  by (auto simp: getitem_def fmlookup_dom_iff)

lemma loop_a_has_auto:
  "fset_of_list ks |\<subseteq>| fmdom A \<Longrightarrow>
     loop_a_has A True ks ret inp = Inr (ret @ map (\<lambda>k. (''d'', k, PStr [])) ks, inp)"
  by (induction ks arbitrary: ret) (simp_all add: getitem_present priv_ShowRow_auto)

lemma loop_b_has_auto:
  "fset_of_list ks |\<subseteq>| fmdom B \<Longrightarrow>
     loop_b_has B True ks ret inp = Inr (ret @ map (\<lambda>k. (''a'', k, the (fmlookup B k))) ks, inp)"
  by (induction ks arbitrary: ret) (simp_all add: getitem_present priv_ShowRow_auto)

lemma loop_common_auto:
  "fset_of_list ks |\<subseteq>| fmdom A \<Longrightarrow> fset_of_list ks |\<subseteq>| fmdom B \<Longrightarrow>
     loop_common A B True ks ret inp =
       Inr (ret @ map (\<lambda>k. if py_eq (the (fmlookup A k)) (the (fmlookup B k))
                             then (''k'', k, the (fmlookup A k))
                             else (''e'', k, the (fmlookup B k))) ks, inp)"
  by (induction ks arbitrary: ret) (simp_all add: getitem_present priv_ShowRow_auto)

lemma priv_ShowDiff_auto:
  "priv_ShowDiff \<lparr>self_a = A, self_b = B\<rparr> True inp =
     Inr (map (\<lambda>k. (''d'', k, PStr [])) (sorted_list_of_fset (fmdom A |-| fmdom B)) @
          map (\<lambda>k. (''a'', k, the (fmlookup B k))) (sorted_list_of_fset (fmdom B |-| fmdom A)) @
          map (\<lambda>k. if py_eq (the (fmlookup A k)) (the (fmlookup B k))
                    then (''k'', k, the (fmlookup A k))
                    else (''e'', k, the (fmlookup B k)))
              (sorted_list_of_fset (fmdom A |\<inter>| fmdom B)), inp)"
proof (cases "fcard (fmdom A) = 0 \<and> fcard (fmdom B) = 0")
  case True
  then have "fmdom A = {||}" "fmdom B = {||}"
    by (simp_all add: fcard_0_eq)
  then show ?thesis
    by (simp add: priv_ShowDiff_def sorted_list_of_fset.rep_eq)
next
  case False
  have sorted_empty: "sorted_list_of_fset ({||} :: string fset) = []"
    by (simp add: sorted_list_of_fset.rep_eq)
  have a: "fset_of_list (sorted_list_of_fset (fmdom A |-| fmdom B)) |\<subseteq>| fmdom A"
    and b: "fset_of_list (sorted_list_of_fset (fmdom B |-| fmdom A)) |\<subseteq>| fmdom B"
    and c1: "fset_of_list (sorted_list_of_fset (fmdom A |\<inter>| fmdom B)) |\<subseteq>| fmdom A"
    and c2: "fset_of_list (sorted_list_of_fset (fmdom A |\<inter>| fmdom B)) |\<subseteq>| fmdom B"
    by auto
  from False show ?thesis
    by (simp add: priv_ShowDiff_def Let_def loop_a_has_auto [OF a] loop_b_has_auto [OF b]
          loop_common_auto [OF c1 c2] fcard_0_eq sorted_empty)
qed

lemma review_known:
  "\<forall>d \<in> set ret. fst d \<in> {''k'', ''a'', ''d'', ''e''} \<Longrightarrow> review ret = None"
  by (induction ret rule: review.induct) auto

lemma save_or_redo_auto: "save_or_redo True inp = Inr (True, inp)"
  by (subst save_or_redo.simps) simp

lemma AutoDiff_auto:
  "AutoDiff \<lparr>self_a = A, self_b = B\<rparr> inp =
     Inr (map (\<lambda>k. (''d'', k, PStr [])) (sorted_list_of_fset (fmdom A |-| fmdom B)) @
          map (\<lambda>k. (''a'', k, the (fmlookup B k))) (sorted_list_of_fset (fmdom B |-| fmdom A)) @
          map (\<lambda>k. if py_eq (the (fmlookup A k)) (the (fmlookup B k))
                    then (''k'', k, the (fmlookup A k))
                    else (''e'', k, the (fmlookup B k)))
              (sorted_list_of_fset (fmdom A |\<inter>| fmdom B)), inp)"
proof -
  let ?diff = "map (\<lambda>k. (''d'', k, PStr [])) (sorted_list_of_fset (fmdom A |-| fmdom B)) @
          map (\<lambda>k. (''a'', k, the (fmlookup B k))) (sorted_list_of_fset (fmdom B |-| fmdom A)) @
          map (\<lambda>k. if py_eq (the (fmlookup A k)) (the (fmlookup B k))
                    then (''k'', k, the (fmlookup A k))
                    else (''e'', k, the (fmlookup B k)))
              (sorted_list_of_fset (fmdom A |\<inter>| fmdom B))"
  have "\<forall>d \<in> set ?diff. fst d \<in> {''k'', ''a'', ''d'', ''e''}"
    by auto
  then have "review ?diff = None"
    by (rule review_known)
  then show ?thesis
    unfolding AutoDiff_def
    by (subst ShowDiff.simps) (simp add: priv_ShowDiff_auto save_or_redo_auto)
qed



text \<open>
  Claim C3, on the dicts of the source's self-test. The pass under \<open>autoaccept\<close> returns
  Delete Charlie, Add David, Edit Alice, Keep Bob, in this order, and applying the list to
  \<open>A\<close> gives a new dict equal to \<open>B\<close> and leaves \<open>A\<close> as it was. But the value of the
  Delete instruction is the empty string and not 30: \<open>_ShowDiff\<close> passes \<open>""\<close> as the
  right-hand value of a deleted key, and under \<open>autoaccept\<close> \<open>_ShowRow\<close> returns
  \<open>('d', k, orig_right)\<close>, where the answer \<open>d\<close> returns \<open>('d', k, orig_left)\<close>.
\<close>

theorem AutoDiff_example:
  "AutoDiff \<lparr>self_a = example_a, self_b = example_b\<rparr> inp
     = Inr ([(''d'', ''Charlie'', PStr []), (''a'', ''David'', PInt 40),
             (''e'', ''Alice'', PInt 15), (''k'', ''Bob'', PInt 20)], inp) \<and>
   ApplyDiff 0 [(''d'', ''Charlie'', PStr []), (''a'', ''David'', PInt 40),
                (''e'', ''Alice'', PInt 15), (''k'', ''Bob'', PInt 20)]
       True True True True [example_a]
     = (Inr (Some 1), [example_a, example_b])"
proof (rule conjI)
  have "map (\<lambda>k. (''d'', k, PStr [])) (sorted_list_of_fset (fmdom example_a |-| fmdom example_b)) @
        map (\<lambda>k. (''a'', k, the (fmlookup example_b k)))
            (sorted_list_of_fset (fmdom example_b |-| fmdom example_a)) @
        map (\<lambda>k. if py_eq (the (fmlookup example_a k)) (the (fmlookup example_b k))
                  then (''k'', k, the (fmlookup example_a k))
                  else (''e'', k, the (fmlookup example_b k)))
            (sorted_list_of_fset (fmdom example_a |\<inter>| fmdom example_b))
        = [(''d'', ''Charlie'', PStr []), (''a'', ''David'', PInt 40),
           (''e'', ''Alice'', PInt 15), (''k'', ''Bob'', PInt 20)]"
    by code_simp
  then show "AutoDiff \<lparr>self_a = example_a, self_b = example_b\<rparr> inp
     = Inr ([(''d'', ''Charlie'', PStr []), (''a'', ''David'', PInt 40),
             (''e'', ''Alice'', PInt 15), (''k'', ''Bob'', PInt 20)], inp)"
    by (simp only: AutoDiff_auto)
  show "ApplyDiff 0 [(''d'', ''Charlie'', PStr []), (''a'', ''David'', PInt 40),
                (''e'', ''Alice'', PInt 15), (''k'', ''Bob'', PInt 20)]
       True True True True [example_a]
     = (Inr (Some 1), [example_a, example_b])"
    by code_simp
qed

subsection \<open>A pass in any mode\<close>

text \<open>
  An instruction that \<open>_ShowRow\<close> returns carries the key it was called with, and each
  loop appends at most one instruction for each of its keys, in their order.
\<close>

lemma priv_ShowRow_key:
  "priv_ShowRow k l r s a inp = Inr (Some z, inp') \<Longrightarrow> fst (snd z) = k"
proof (cases a)
  case True
  assume "priv_ShowRow k l r s a inp = Inr (Some z, inp')"
  with True show ?thesis
    by (auto simp: priv_ShowRow_auto split: status.splits)
next
  case False
  assume "priv_ShowRow k l r s a inp = Inr (Some z, inp')"
  with False have "priv_ShowRow k l r s False inp = Inr (Some z, inp')" by simp
  then show ?thesis
  proof (induction inp)
    case Nil
    then show ?case
      by (subst (asm) priv_ShowRow.simps) (auto simp: input_def split: if_splits)
  next
    case (Cons w ws)
    from Cons.prems Cons.IH show ?case
      apply (subst (asm) priv_ShowRow.simps)
      apply (auto simp: input_def split: if_splits list.splits)
      done
  qed
qed

lemma append_row:
  assumes row: "priv_ShowRow k l r s a inp = Inr (zz, inp1)"
    and rest: "\<exists>new. ret' = (case zz of None \<Rightarrow> ret | Some z \<Rightarrow> ret @ [z]) @ new \<and>
           set (map (fst \<circ> snd) new) \<subseteq> set ks \<and> (distinct ks \<longrightarrow> distinct (map (fst \<circ> snd) new))"
  shows "\<exists>new. ret' = ret @ new \<and> set (map (fst \<circ> snd) new) \<subseteq> set (k # ks) \<and>
           (distinct (k # ks) \<longrightarrow> distinct (map (fst \<circ> snd) new))"
proof (cases zz)
  case None
  with rest show ?thesis by auto
next
  case (Some z)
  with row have key: "fst (snd z) = k" by (auto dest: priv_ShowRow_key)
  from rest Some obtain new where new: "ret' = (ret @ [z]) @ new"
    "set (map (fst \<circ> snd) new) \<subseteq> set ks" "distinct ks \<longrightarrow> distinct (map (fst \<circ> snd) new)"
    by auto
  from new key have "ret' = ret @ (z # new) \<and> set (map (fst \<circ> snd) (z # new)) \<subseteq> set (k # ks) \<and>
           (distinct (k # ks) \<longrightarrow> distinct (map (fst \<circ> snd) (z # new)))"
    by auto
  then show ?thesis by blast
qed

lemma loop_a_has_keys:
  "loop_a_has A a ks ret inp = Inr (ret', inp') \<Longrightarrow>
     \<exists>new. ret' = ret @ new \<and> set (map (fst \<circ> snd) new) \<subseteq> set ks \<and>
           (distinct ks \<longrightarrow> distinct (map (fst \<circ> snd) new))"
proof (induction ks arbitrary: ret inp)
  case Nil
  then show ?case by simp
next
  case (Cons k ks)
  from Cons.prems obtain left zz inp1 where
    row: "priv_ShowRow k left (PStr []) Deleted a inp = Inr (zz, inp1)" and
    rest: "loop_a_has A a ks (case zz of None \<Rightarrow> ret | Some z \<Rightarrow> ret @ [z]) inp1 = Inr (ret', inp')"
    by (auto split: sum.splits)
  from append_row [OF row Cons.IH [OF rest]] show ?case .
qed

lemma loop_b_has_keys:
  "loop_b_has B a ks ret inp = Inr (ret', inp') \<Longrightarrow>
     \<exists>new. ret' = ret @ new \<and> set (map (fst \<circ> snd) new) \<subseteq> set ks \<and>
           (distinct ks \<longrightarrow> distinct (map (fst \<circ> snd) new))"
proof (induction ks arbitrary: ret inp)
  case Nil
  then show ?case by simp
next
  case (Cons k ks)
  from Cons.prems obtain right zz inp1 where
    row: "priv_ShowRow k (PStr []) right Added a inp = Inr (zz, inp1)" and
    rest: "loop_b_has B a ks (case zz of None \<Rightarrow> ret | Some z \<Rightarrow> ret @ [z]) inp1 = Inr (ret', inp')"
    by (auto split: sum.splits)
  from append_row [OF row Cons.IH [OF rest]] show ?case .
qed

lemma loop_common_keys:
  "loop_common A B a ks ret inp = Inr (ret', inp') \<Longrightarrow>
     \<exists>new. ret' = ret @ new \<and> set (map (fst \<circ> snd) new) \<subseteq> set ks \<and>
           (distinct ks \<longrightarrow> distinct (map (fst \<circ> snd) new))"
proof (induction ks arbitrary: ret inp)
  case Nil
  then show ?case by simp
next
  case (Cons k ks)
  from Cons.prems obtain left right s zz inp1 where
    row: "priv_ShowRow k left right s a inp = Inr (zz, inp1)" and
    rest: "loop_common A B a ks (case zz of None \<Rightarrow> ret | Some z \<Rightarrow> ret @ [z]) inp1 = Inr (ret', inp')"
    by (auto simp: Let_def split: sum.splits)
  from append_row [OF row Cons.IH [OF rest]] show ?case .
qed

lemma distinct_three:
  "distinct xs \<Longrightarrow> distinct ys \<Longrightarrow> distinct zs \<Longrightarrow>
   set xs \<subseteq> X - Y \<Longrightarrow> set ys \<subseteq> Y - X \<Longrightarrow> set zs \<subseteq> X \<inter> Y \<Longrightarrow>
   distinct (xs @ ys @ zs)"
  by auto

lemma priv_ShowDiff_keys:
  assumes "priv_ShowDiff \<lparr>self_a = A, self_b = B\<rparr> a inp = Inr (ret, inp')"
  shows "distinct (map (fst \<circ> snd) ret) \<and>
         set (map (fst \<circ> snd) ret) \<subseteq> fset (fmdom A |\<union>| fmdom B)"
proof (cases "fcard (fmdom A) = 0 \<and> fcard (fmdom B) = 0")
  case True
  with assms show ?thesis by (simp add: priv_ShowDiff_def)
next
  case False
  let ?ds = "sorted_list_of_fset (fmdom A |-| fmdom B)"
  let ?as = "sorted_list_of_fset (fmdom B |-| fmdom A)"
  let ?cs = "sorted_list_of_fset (fmdom A |\<inter>| fmdom B)"
  from False assms have
    "(case loop_a_has A a ?ds [] inp of
        Inl e \<Rightarrow> Inl e
      | Inr (ret1, inp1) \<Rightarrow>
         (case loop_b_has B a ?as ret1 inp1 of
            Inl e \<Rightarrow> Inl e
          | Inr (ret2, inp2) \<Rightarrow> loop_common A B a ?cs ret2 inp2)) = Inr (ret, inp')"
    by (auto simp: priv_ShowDiff_def Let_def split: if_splits cong: sum.case_cong)
  then obtain ret1 inp1 ret2 inp2 where
    1: "loop_a_has A a ?ds [] inp = Inr (ret1, inp1)" and
    2: "loop_b_has B a ?as ret1 inp1 = Inr (ret2, inp2)" and
    3: "loop_common A B a ?cs ret2 inp2 = Inr (ret, inp')"
    by (auto split: sum.splits)
  have d: "distinct ?ds" "distinct ?as" "distinct ?cs"
    by (simp_all add: sorted_list_of_fset.rep_eq)
  from loop_a_has_keys [OF 1] d obtain n1 where
    n1: "ret1 = n1" "set (map (fst \<circ> snd) n1) \<subseteq> set ?ds" "distinct (map (fst \<circ> snd) n1)"
    by auto
  from loop_b_has_keys [OF 2] d obtain n2 where
    n2: "ret2 = ret1 @ n2" "set (map (fst \<circ> snd) n2) \<subseteq> set ?as" "distinct (map (fst \<circ> snd) n2)"
    by auto
  from loop_common_keys [OF 3] d obtain n3 where
    n3: "ret = ret2 @ n3" "set (map (fst \<circ> snd) n3) \<subseteq> set ?cs" "distinct (map (fst \<circ> snd) n3)"
    by auto
  have s1: "set (map (fst \<circ> snd) n1) \<subseteq> fset (fmdom A) - fset (fmdom B)"
    using n1(2) by simp
  have s2: "set (map (fst \<circ> snd) n2) \<subseteq> fset (fmdom B) - fset (fmdom A)"
    using n2(2) by simp
  have s3: "set (map (fst \<circ> snd) n3) \<subseteq> fset (fmdom A) \<inter> fset (fmdom B)"
    using n3(2) by simp
  have eq: "map (fst \<circ> snd) ret = map (fst \<circ> snd) n1 @ map (fst \<circ> snd) n2 @ map (fst \<circ> snd) n3"
    using n1(1) n2(1) n3(1) by simp
  have "distinct (map (fst \<circ> snd) n1 @ map (fst \<circ> snd) n2 @ map (fst \<circ> snd) n3)"
    using n1(3) n2(3) n3(3) s1 s2 s3 by (rule distinct_three)
  moreover have "set (map (fst \<circ> snd) n1 @ map (fst \<circ> snd) n2 @ map (fst \<circ> snd) n3)
      \<subseteq> fset (fmdom A |\<union>| fmdom B)"
    using s1 s2 s3 unfolding set_append by auto
  ultimately show ?thesis
    unfolding eq by (rule conjI)
qed

lemma priv_ShowRow_Added_left:
  "lower which = ''l'' \<Longrightarrow> priv_ShowRow k left right Added False (which # inp) = Inr (None, inp)"
  by (subst priv_ShowRow.simps) (simp add: input_def)

text \<open>
  Claim C5. For a key with status Added, the answer \<open>l\<close> or \<open>L\<close> (keep the left side)
  makes \<open>_ShowRow\<close> return \<open>None\<close>, and the loop over the added keys goes on with \<open>ret\<close>
  as it was: no Keep and no Delete is appended. So the list that a pass returns, in any
  mode and on any input, has no key twice and only keys of \<open>A\<close> or \<open>B\<close>.
\<close>

theorem Added_keep_left_no_instruction:
  "(lower which = ''l'' \<longrightarrow>
      priv_ShowRow k left right Added False (which # inp) = Inr (None, inp)) \<and>
   (lower which = ''l'' \<and> k |\<in>| fmdom B \<longrightarrow>
      loop_b_has B False (k # ks) ret (which # inp) = loop_b_has B False ks ret inp) \<and>
   (priv_ShowDiff \<lparr>self_a = A, self_b = B\<rparr> autoaccept inp = Inr (ret, inp') \<longrightarrow>
      distinct (map (fst \<circ> snd) ret) \<and>
      set (map (fst \<circ> snd) ret) \<subseteq> fset (fmdom A |\<union>| fmdom B))"
proof (intro conjI impI)
  assume "lower which = ''l''"
  then show "priv_ShowRow k left right Added False (which # inp) = Inr (None, inp)"
    by (rule priv_ShowRow_Added_left)
next
  assume "lower which = ''l'' \<and> k |\<in>| fmdom B"
  then show "loop_b_has B False (k # ks) ret (which # inp) = loop_b_has B False ks ret inp"
    by (auto simp: priv_ShowRow_Added_left getitem_def fmlookup_dom_iff)
next
  assume p: "priv_ShowDiff \<lparr>self_a = A, self_b = B\<rparr> autoaccept inp = Inr (ret, inp')"
  from priv_ShowDiff_keys [OF p] show "distinct (map (fst \<circ> snd) ret)"
    by (rule conjunct1)
  from priv_ShowDiff_keys [OF p]
  show "set (map (fst \<circ> snd) ret) \<subseteq> fset (fmdom A |\<union>| fmdom B)"
    by (rule conjunct2)
qed

theorem Added_keep_left_no_instruction_witness:
  "priv_ShowRow ''David'' (PStr []) (PInt 40) Added False (''L'' # [''R'', []]) = Inr (None, [''R'', []]) \<and>
   loop_b_has example_b False (''David'' # []) [(''d'', ''Charlie'', PStr [])] (''L'' # [''R'', []])
     = loop_b_has example_b False [] [(''d'', ''Charlie'', PStr [])] [''R'', []] \<and>
   priv_ShowDiff \<lparr>self_a = example_a, self_b = example_b\<rparr> False [''r'', ''L'', ''R'', []]
     = Inr ([(''d'', ''Charlie'', PStr []), (''e'', ''Alice'', PInt 15), (''k'', ''Bob'', PInt 20)], []) \<and>
   distinct (map (fst \<circ> snd)
     [(''d'', ''Charlie'', PStr []), (''e'', ''Alice'', PInt 15), (''k'', ''Bob'', PInt 20)]) \<and>
   set (map (fst \<circ> snd)
     [(''d'', ''Charlie'', PStr []), (''e'', ''Alice'', PInt 15), (''k'', ''Bob'', PInt 20)])
     \<subseteq> fset (fmdom example_a |\<union>| fmdom example_b)"
proof -
  have low: "lower ''L'' = ''l''"
    by code_simp
  have mem: "''David'' |\<in>| fmdom example_b"
    by (simp add: example_b_def)
  have pass: "priv_ShowDiff \<lparr>self_a = example_a, self_b = example_b\<rparr> False [''r'', ''L'', ''R'', []]
     = Inr ([(''d'', ''Charlie'', PStr []), (''e'', ''Alice'', PInt 15), (''k'', ''Bob'', PInt 20)], [])"
    by code_simp
  from Added_keep_left_no_instruction
         [where which = "''L''" and k = "''David''" and left = "PStr []" and right = "PInt 40"
            and inp = "[''R'', []]" and B = example_b and ks = "[]"
            and ret = "[(''d'', ''Charlie'', PStr [])]"] low mem
  have 1: "priv_ShowRow ''David'' (PStr []) (PInt 40) Added False (''L'' # [''R'', []]) = Inr (None, [''R'', []])"
    and 2: "loop_b_has example_b False (''David'' # []) [(''d'', ''Charlie'', PStr [])] (''L'' # [''R'', []])
     = loop_b_has example_b False [] [(''d'', ''Charlie'', PStr [])] [''R'', []]"
    by blast+
  from Added_keep_left_no_instruction
         [where A = example_a and B = example_b and autoaccept = False
            and inp = "[''r'', ''L'', ''R'', []]"
            and ret = "[(''d'', ''Charlie'', PStr []), (''e'', ''Alice'', PInt 15), (''k'', ''Bob'', PInt 20)]"
            and inp' = "[]"] pass
  have 3: "distinct (map (fst \<circ> snd)
     [(''d'', ''Charlie'', PStr []), (''e'', ''Alice'', PInt 15), (''k'', ''Bob'', PInt 20)])"
    and 4: "set (map (fst \<circ> snd)
     [(''d'', ''Charlie'', PStr []), (''e'', ''Alice'', PInt 15), (''k'', ''Bob'', PInt 20)])
     \<subseteq> fset (fmdom example_a |\<union>| fmdom example_b)"
    by blast+
  from 1 2 pass 3 4 show ?thesis
    by (intro conjI)
qed

section \<open>Applying the instructions of an \<open>autoaccept\<close> pass\<close>












end
